theory Spec2Isabelle
  imports Main "HOL-Library.Word"
begin

section \<open>Committee election (consensus/role.go)\<close>

type_synonym uint64 = "64 word"
type_synonym uint32 = "32 word"





text \<open>
  \<open>IsCommittee\<close>.  The VRF prover \<open>sk.Prove\<close> and the hash \<open>thor.Blake2b\<close> are the
  cryptographic collaborators and are parameters: \<open>Prove\<close> returns an error or a proof,
  \<open>Blake2b\<close> the bytes of the digest.  The result is the pair \<open>(*vrf.Proof, error)\<close>:
  \<open>Inl e\<close> an error, \<open>Inr None\<close> the pair \<open>(nil, nil)\<close>, \<open>Inr (Some p)\<close> the pair
  \<open>(p, nil)\<close>.
\<close>

datatype 'e go_result = Panic | Returned 'e





section \<open>Block production (node, packer loop)\<close>

subsection \<open>Transaction adoption\<close>

text \<open>
  \<open>flow.Adopt\<close> returns \<open>nil\<close> or an error that \<open>packer.IsGasLimitReached\<close> and
  \<open>packer.IsTxNotAdoptableNow\<close> classify.
\<close>

datatype adopt_error = GasLimitReached | TxNotAdoptableNow | OtherAdoptError

text \<open>
  The state of one run of \<open>packTxSetAndBlockSummary\<close>: the flow, the list
  \<open>txsToRemove\<close>, whether the single message of the channel \<open>done\<close> has been received,
  and the transactions handed to \<open>flow.Adopt\<close> so far, in order.
\<close>

record ('flow, 'tx) adoption =
  flow :: 'flow
  txsToRemove :: "'tx list"
  doneReceived :: bool
  adoptCalls :: "'tx list"

text \<open>
  The loop over \<open>n.txPool.Executables()\<close>.  The timer goroutine sleeps and then sends one
  message on the unbuffered channel \<open>done\<close>; \<open>ready\<close> says, for each iteration, whether
  that send is pending when the \<open>select\<close> runs (an exhausted list: not pending).  The
  \<open>break\<close> of the \<open>select\<close> case leaves the \<open>select\<close>, and the \<open>break\<close> of the
  \<open>switch\<close> case leaves the \<open>switch\<close>: in both the \<open>for\<close> loop goes on with the next
  transaction.
\<close>

fun adoptLoop ::
  "('flow \<Rightarrow> 'tx \<Rightarrow> adopt_error option \<times> 'flow) \<Rightarrow> bool list \<Rightarrow> 'tx list \<Rightarrow>
   ('flow, 'tx) adoption \<Rightarrow> ('flow, 'tx) adoption" where
  "adoptLoop Adopt ready [] st = st"
| "adoptLoop Adopt ready (tx # txs) st =
     (let pending = (case ready of [] \<Rightarrow> False | r # _ \<Rightarrow> r) \<and> \<not> doneReceived st;
          st1 = st\<lparr>doneReceived := doneReceived st \<or> pending\<rparr>;
          (err, fl) = Adopt (flow st1) tx;
          st2 = st1\<lparr>flow := fl, adoptCalls := adoptCalls st1 @ [tx]\<rparr>
      in case err of
           Some GasLimitReached \<Rightarrow> adoptLoop Adopt (tl ready) txs st2
         | Some TxNotAdoptableNow \<Rightarrow> adoptLoop Adopt (tl ready) txs st2
         | _ \<Rightarrow> adoptLoop Adopt (tl ready) txs (st2\<lparr>txsToRemove := txsToRemove st2 @ [tx]\<rparr>))"

definition adoption_start :: "'flow \<Rightarrow> ('flow, 'tx) adoption" where
  "adoption_start fl = \<lparr>flow = fl, txsToRemove = [], doneReceived = False, adoptCalls = []\<rparr>"

text \<open>
  Modelled from the spec: \<open>packer.Flow\<close> and its method \<open>Adopt\<close> are not among the
  sources.  The spec has \<open>adoptTransaction\<close> add the transaction to the in-progress block
  within the remaining gas budget and answer \<open>GasLimitReached\<close> when it does not fit.  A
  transaction is represented by the gas it needs.
\<close>

record gas_flow =
  gasLimit :: nat
  gasUsed :: nat
  adopted :: "nat list"

definition gas_Adopt :: "gas_flow \<Rightarrow> nat \<Rightarrow> adopt_error option \<times> gas_flow" where
  "gas_Adopt fl tx =
     (if gasLimit fl < gasUsed fl + tx then (Some GasLimitReached, fl)
      else (None, fl\<lparr>gasUsed := gasUsed fl + tx, adopted := adopted fl @ [tx]\<rparr>))"

subsection \<open>Packing and committing after quorum\<close>

text \<open>
  The tail of the \<open>newEndorsementCh\<close> case of \<open>packerLoop\<close>, from \<open>flow.Pack\<close> on.  The
  calls into collaborators are inputs: the error of \<open>flow.Pack\<close>, the error of
  \<open>stage.Commit\<close>, and the result of \<open>n.commitBlock\<close> (an error, or the head ids of the
  previous and the current trunk).  The outcome is either a panic or the loop going on,
  each with the actions taken before it.
\<close>

datatype action =
    ErrLog string
  | CommitBlock
  | ProcessFork
  | BroadcastBlockHeader
  | BandwidthUpdate

datatype outcome = Panics "action list" | LoopGoesOn "action list"

definition packAndCommit ::
  "'e option \<Rightarrow> 'e option \<Rightarrow> ('e + 'id \<times> 'id) \<Rightarrow> outcome" where
  "packAndCommit packErr stageCommitErr commitBlockRes =
     (case packErr of
        Some e \<Rightarrow> LoopGoesOn [ErrLog ''PackBlockHeader'']
      | None \<Rightarrow>
          (let acts = (case stageCommitErr of Some e \<Rightarrow> [ErrLog ''commit state''] | None \<Rightarrow> [])
           in case commitBlockRes of
                Inl e \<Rightarrow> Panics acts
              | Inr (prevTrunk, curTrunk) \<Rightarrow>
                  LoopGoesOn (acts @ [CommitBlock, ProcessFork]
                    @ (if prevTrunk \<noteq> curTrunk then [BroadcastBlockHeader] else [])
                    @ [BandwidthUpdate])))"

text \<open>A flow with a gas limit of 100 and nothing adopted yet.\<close>

definition gas_start :: "(gas_flow, nat) adoption" where
  "gas_start = adoption_start \<lparr>gasLimit = 100, gasUsed = 0, adopted = []\<rparr>"

section \<open>Repository (chain/repository.go)\<close>

subsection \<open>Data\<close>

text \<open>
  A \<open>thor.Bytes32\<close> block id.  Its first four bytes are the block number
  (\<open>block.Number\<close>, big-endian \<open>uint32\<close>); the other 28 bytes are kept as one number.
  \<open>thor.Bytes32{}\<close> is the all-zero id.
\<close>

type_synonym bytes32 = "uint32 \<times> nat"

definition Number :: "bytes32 \<Rightarrow> uint32" where
  "Number bid = fst bid"

definition zero32 :: bytes32 where
  "zero32 = (0, 0)"

text \<open>
  Transactions, receipts, backer signatures and index roots are opaque payloads here,
  each represented by a number; a transaction's number is also its \<open>ID()\<close>.
\<close>

type_synonym payload = nat

record header =
  hID :: bytes32
  hParentID :: bytes32


record BlockSummary =
  sHeader :: header
  IndexRoot :: payload
  Txs :: "payload list"
  sSize :: nat

datatype error = NotFound | ParentMissing | StorageFault | IndexFault

text \<open>\<open>IsNotFound\<close>: the error is the not-found sentinel of the repository or of the store.\<close>

definition IsNotFound :: "error \<Rightarrow> bool" where
  "IsNotFound err = (err = NotFound)"

subsection \<open>The store \<open>r.data\<close> and the caches\<close>

text \<open>
  One put into the store \<open>r.data\<close>: a transaction or a receipt under (block id, infix,
  index), the backer signatures or the summary under the block id, a branch head under
  the head id.
\<close>

datatype put =
    PutTx bytes32 nat payload
  | PutReceipt bytes32 nat payload
  | PutBss bytes32 "payload list"
  | PutSummary bytes32 BlockSummary
  | PutBranchHead bytes32 bytes32

text \<open>
  The content of \<open>r.data\<close> by kind of record, and \<open>batches\<close>: the writes the store has
  committed, each an atomic batch of puts, oldest first.
\<close>

record store =
  dSummaries :: "bytes32 \<rightharpoonup> BlockSummary"
  dTxs :: "bytes32 \<times> nat \<rightharpoonup> payload"
  dReceipts :: "bytes32 \<times> nat \<rightharpoonup> payload"
  dBss :: "bytes32 \<rightharpoonup> payload list"
  dHeads :: "bytes32 \<rightharpoonup> bytes32"
  batches :: "put list list"



text \<open>
  The repository: the store, the four caches (\<open>newCache\<close> is not among the sources; a
  cache is a finite map here, without eviction), and the faults of the storage
  collaborator: the puts that fail and the summary loads that fail with an error other
  than not-found.
\<close>

record Repository =
  data :: store
  cache_summaries :: "bytes32 \<rightharpoonup> BlockSummary"
  cache_txs :: "bytes32 \<times> nat \<rightharpoonup> payload"
  cache_receipts :: "bytes32 \<times> nat \<rightharpoonup> payload"
  cache_bss :: "bytes32 \<rightharpoonup> payload list"
  putFails :: "put \<Rightarrow> bool"
  loadFails :: "bytes32 \<Rightarrow> bool"

subsection \<open>Reading a summary\<close>

text \<open>
  \<open>GetBlockSummary\<close>: \<open>caches.summaries.GetOrLoad\<close> answers from the cache, or loads the
  summary from \<open>r.data\<close> and caches it; a failed load caches nothing.
\<close>

definition loadBlockSummary :: "Repository \<Rightarrow> bytes32 \<Rightarrow> error + BlockSummary" where
  "loadBlockSummary r bid =
     (if loadFails r bid then Inl StorageFault
      else case dSummaries (data r) bid of None \<Rightarrow> Inl NotFound | Some sm \<Rightarrow> Inr sm)"

definition GetBlockSummary :: "Repository \<Rightarrow> bytes32 \<Rightarrow> (error + BlockSummary) \<times> Repository" where
  "GetBlockSummary r bid =
     (case cache_summaries r bid of
        Some sm \<Rightarrow> (Inr sm, r)
      | None \<Rightarrow>
          (case loadBlockSummary r bid of
             Inl err \<Rightarrow> (Inl err, r)
           | Inr sm \<Rightarrow> (Inr sm, r\<lparr>cache_summaries := (cache_summaries r)(bid \<mapsto> sm)\<rparr>)))"

subsection \<open>Writing a block\<close>










subsection \<open>Conflicting blocks\<close>

text \<open>
  Modelled from the spec: \<open>Chain.HasBlock\<close> (and \<open>Chain.GetBlockID\<close> under it) are not among
  the sources.  The spec has the index root answer ancestor queries: the chain with head
  \<open>head\<close> holds, for each number up to the head's, the block of that number among the
  head and its ancestors.  \<open>walk_up\<close> follows the parent ids of the stored summaries.
\<close>

fun walk_up :: "store \<Rightarrow> nat \<Rightarrow> bytes32 \<Rightarrow> bytes32 option" where
  "walk_up s 0 bid = (if dSummaries s bid = None then None else Some bid)"
| "walk_up s (Suc k) bid =
     (case dSummaries s bid of
        None \<Rightarrow> None
      | Some sm \<Rightarrow> walk_up s k (hParentID (sHeader sm)))"

text \<open>
  Modelled from the spec: \<open>Chain.GetBlockID\<close> gives the id of the block of a given number
  on the chain ending at \<open>head\<close>, or not-found.
\<close>

definition GetBlockID :: "store \<Rightarrow> bytes32 \<Rightarrow> uint32 \<Rightarrow> error + bytes32" where
  "GetBlockID s head num =
     (if Number head < num then Inl NotFound
      else case walk_up s (unat (Number head) - unat num) head of
             None \<Rightarrow> Inl NotFound
           | Some bid \<Rightarrow> Inr bid)"

text \<open>
  Modelled from the spec: \<open>Chain.HasBlock\<close> says whether the chain ending at \<open>head\<close> holds
  the block id, the ancestor query: the block of that number on the chain is this one.
\<close>

definition HasBlock :: "Repository \<Rightarrow> bytes32 \<Rightarrow> bytes32 \<Rightarrow> error + bool" where
  "HasBlock r head bid =
     (case GetBlockID (data r) head (Number bid) of
        Inl err \<Rightarrow> if IsNotFound err then Inr False else Inl err
      | Inr foundID \<Rightarrow> Inr (bid = foundID))"

text \<open>
  \<open>IfConflict\<close>, with the pair \<open>(bool, error)\<close> of the source as its result; \<open>None\<close> is the
  \<open>nil\<close> error.  \<open>hasBlock\<close> stands for \<open>r.NewChain(high).HasBlock(low)\<close>.
\<close>

definition IfConflict ::
  "(Repository \<Rightarrow> bytes32 \<Rightarrow> bytes32 \<Rightarrow> error + bool) \<Rightarrow>
   Repository \<Rightarrow> bytes32 \<Rightarrow> bytes32 \<Rightarrow> (bool \<times> error option) \<times> Repository" where
  "IfConflict hasBlock r b1 b2 =
     (case GetBlockSummary r b1 of
        (Inl err, r1) \<Rightarrow>
          if IsNotFound err then ((False, None), r1) else ((False, Some err), r1)
      | (Inr s1, r1) \<Rightarrow>
          (case GetBlockSummary r1 b2 of
             (Inl err, r2) \<Rightarrow>
               if IsNotFound err then ((False, None), r2) else ((False, Some err), r2)
           | (Inr s2, r2) \<Rightarrow>
               if b1 = b2 then ((False, None), r2)
               else if Number b1 = Number b2 then ((True, None), r2)
               else
                 (let (low, high) = (if Number b1 > Number b2 then (b2, b1) else (b1, b2))
                  in case hasBlock r2 high low of
                       Inl err \<Rightarrow> ((True, Some err), r2)
                     | Inr ok \<Rightarrow> ((\<not> ok, None), r2))))"

subsection \<open>Presence, well-formed numbers and a sample repository\<close>

text \<open>
  A block id is present when its summary is stored in \<open>r.data\<close> and \<open>GetBlockSummary\<close>
  finds it.
\<close>

definition present :: "Repository \<Rightarrow> bytes32 \<Rightarrow> bool" where
  "present r bid =
     (dSummaries (data r) bid \<noteq> None
      \<and> (case fst (GetBlockSummary r bid) of Inl err \<Rightarrow> False | Inr sm \<Rightarrow> True))"

text \<open>
  Block ids carry their number: a stored block whose parent is stored has the parent's
  number plus one (\<open>block.Header\<close> derives the number from the parent id).
\<close>

definition wf_numbers :: "store \<Rightarrow> bool" where
  "wf_numbers s =
     (\<forall>bid sm. dSummaries s bid = Some sm \<longrightarrow> dSummaries s (hParentID (sHeader sm)) \<noteq> None
        \<longrightarrow> unat (Number bid) = Suc (unat (Number (hParentID (sHeader sm)))))"

text \<open>
  A repository for evaluation: genesis \<open>(0, 100)\<close>, its descendants \<open>(1, 11)\<close> and
  \<open>(2, 12)\<close> on one branch, and \<open>(1, 21)\<close> on another.
\<close>

definition sample_summary :: "bytes32 \<Rightarrow> bytes32 \<Rightarrow> BlockSummary" where
  "sample_summary bid pid =
     \<lparr>sHeader = \<lparr>hID = bid, hParentID = pid\<rparr>, IndexRoot = 0, Txs = [], sSize = 0\<rparr>"

definition sample_store :: store where
  "sample_store =
     \<lparr>dSummaries = map_of
        [((0, 100), sample_summary (0, 100) (0xFFFFFFFF, 0)),
         ((1, 11), sample_summary (1, 11) (0, 100)),
         ((2, 12), sample_summary (2, 12) (1, 11)),
         ((1, 21), sample_summary (1, 21) (0, 100))],
      dTxs = Map.empty, dReceipts = Map.empty, dBss = Map.empty,
      dHeads = map_of [((2, 12), zero32), ((1, 21), zero32)],
      batches = []\<rparr>"

definition sample_repo :: Repository where
  "sample_repo =
     \<lparr>data = sample_store, cache_summaries = Map.empty, cache_txs = Map.empty,
      cache_receipts = Map.empty, cache_bss = Map.empty,
      putFails = (\<lambda>p. False), loadFails = (\<lambda>b. False)\<rparr>"

subsection \<open>Sample blocks\<close>





text \<open>
  Faults for evaluation: a repository whose load of the summary of \<open>(1, 11)\<close> fails, and one
  whose put of the branch head of \<open>(3, 13)\<close> fails.
\<close>

definition load_fault_repo :: Repository where
  "load_fault_repo = sample_repo\<lparr>loadFails := (\<lambda>b. b = (1, 11))\<rparr>"


section \<open>Epoch numbers (consensus)\<close>

datatype consensus_error = errTimestamp

text \<open>
  The table of \<open>TestEpochNumber\<close> (consensus/role\_test.go): each row is a timestamp and the
  pair that \<open>cons.EpochNumber\<close> is expected to return, \<open>Inl\<close> for the row that expects
  \<open>errTimestamp\<close>.  \<open>launchTime\<close> is the genesis timestamp; \<open>thor.BlockInterval\<close> and
  \<open>thor.EpochInterval\<close> are parameters.  Timestamps are \<open>uint64\<close>, epoch numbers \<open>uint32\<close>.
\<close>

definition TestEpochNumber_table ::
  "uint64 \<Rightarrow> uint64 \<Rightarrow> uint64 \<Rightarrow> (uint64 \<times> (consensus_error + uint32)) list" where
  "TestEpochNumber_table launchTime BlockInterval EpochInterval =
     [(launchTime - 1, Inl errTimestamp),
      (launchTime + 1, Inr 0),
      (launchTime + BlockInterval, Inr 1),
      (launchTime + BlockInterval * EpochInterval, Inr 1),
      (launchTime + BlockInterval * EpochInterval + 1, Inr 1),
      (launchTime + BlockInterval * (EpochInterval + 1), Inr 2)]"

text \<open>
  Modelled from the spec: \<open>Consensus.RoundNumber\<close> is not among the sources.  A round is
  one slot of \<open>BlockInterval\<close> seconds counted from the genesis timestamp; a timestamp
  before the genesis timestamp is an error.  The round number is a \<open>uint32\<close>; a zero
  \<open>BlockInterval\<close> is a division by zero, a panic.
\<close>

definition RoundNumber :: "uint64 \<Rightarrow> uint64 \<Rightarrow> uint64 \<Rightarrow> (consensus_error + uint32) go_result" where
  "RoundNumber launchTime BlockInterval t =
     (if t < launchTime then Returned (Inl errTimestamp)
      else if BlockInterval = 0 then Panic
      else Returned (Inr (ucast ((t - launchTime) div BlockInterval))))"

text \<open>
  Modelled from the spec: \<open>Consensus.EpochNumber\<close> is not among the sources; only its test
  is.  The spec has an error before the genesis timestamp, epoch 0 at the start, and an
  epoch as a group of \<open>EpochInterval\<close> consecutive rounds.  The spec's sentence on the
  boundaries and the table of the test under the sources disagree on where a group
  starts (the table expects epoch 1 at \<open>launchTime + BlockInterval\<close>); the model takes the
  grouping that returns what every row of the table expects: round 0 is epoch 0, and
  rounds \<open>k * EpochInterval + 1\<close> to \<open>(k + 1) * EpochInterval\<close> are epoch \<open>k + 1\<close>.
\<close>

definition EpochNumber :: "uint64 \<Rightarrow> uint64 \<Rightarrow> uint64 \<Rightarrow> uint64 \<Rightarrow> (consensus_error + uint32) go_result" where
  "EpochNumber launchTime BlockInterval EpochInterval t =
     (case RoundNumber launchTime BlockInterval t of
        Panic \<Rightarrow> Panic
      | Returned (Inl err) \<Rightarrow> Returned (Inl err)
      | Returned (Inr round) \<Rightarrow>
          if round = 0 then Returned (Inr 0)
          else if EpochInterval = 0 then Panic
          else Returned (Inr (ucast ((ucast (round - 1) :: uint64) div EpochInterval + 1))))"

section \<open>Results about committee election\<close>










section \<open>Results about block production\<close>

text \<open>Every candidate is handed to \<open>flow.Adopt\<close>, whatever the earlier calls answered.\<close>

lemma adoptLoop_calls_every_candidate:
  "adoptCalls (adoptLoop Adopt ready txs st) = adoptCalls st @ txs"
proof (induction txs arbitrary: ready st)
  case Nil
  show ?case by simp
next
  case (Cons tx txs)
  show ?case
    by (simp add: Let_def Cons.IH split: prod.splits option.splits adopt_error.splits)
qed

text \<open>The flow and the removal list at the end do not depend on the timer.\<close>

lemma adoptLoop_timer_irrelevant:
  "flow s = flow s' \<Longrightarrow> txsToRemove s = txsToRemove s' \<Longrightarrow>
   flow (adoptLoop Adopt r txs s) = flow (adoptLoop Adopt r' txs s')
   \<and> txsToRemove (adoptLoop Adopt r txs s) = txsToRemove (adoptLoop Adopt r' txs s')"
proof (induction txs arbitrary: r r' s s')
  case Nil
  then show ?case by simp
next
  case (Cons tx txs)
  obtain err fl where a: "Adopt (flow s') tx = (err, fl)" by (cases "Adopt (flow s') tx")
  show ?case
    using Cons.prems a
    by (auto simp: Let_def split: option.splits adopt_error.splits intro!: Cons.IH)
qed

text \<open>
  Claim C6 at a concrete pool: candidates needing 50, 80 and 30 gas, limit 100.  The second
  call of \<open>Adopt\<close> answers \<open>GasLimitReached\<close>; the loop still hands the third candidate
  to \<open>Adopt\<close>, and it is adopted.
\<close>

theorem adoptLoop_goes_on_after_gas_limit:
  "fst (gas_Adopt \<lparr>gasLimit = 100, gasUsed = 50, adopted = [50]\<rparr> 80) = Some GasLimitReached
   \<and> adoptCalls (adoptLoop gas_Adopt [] [50, 80, 30] gas_start) = [50, 80, 30]
   \<and> adopted (flow (adoptLoop gas_Adopt [] [50, 80, 30] gas_start)) = [50, 30]"
  by (simp add: gas_start_def adoption_start_def gas_Adopt_def Let_def)

text \<open>
  Claim C7 at a concrete run: the timer's message is pending before the first iteration
  and is received there; both candidates are adopted afterwards.
\<close>

theorem adoptLoop_goes_on_after_timeout:
  "doneReceived (adoptLoop gas_Adopt [True] [10, 20] gas_start)
   \<and> adoptCalls (adoptLoop gas_Adopt [True] [10, 20] gas_start) = [10, 20]
   \<and> adopted (flow (adoptLoop gas_Adopt [True] [10, 20] gas_start)) = [10, 20]"
  by (simp add: gas_start_def adoption_start_def gas_Adopt_def Let_def)

text \<open>
  With a failing \<open>stage.Commit\<close> and a succeeding \<open>n.commitBlock\<close> the error is logged,
  the block is committed and its header broadcast, and the loop goes on.
\<close>

theorem packAndCommit_stage_error_counterexample:
  "packAndCommit None (Some ''disk full'') (Inr (1::nat, 2::nat))
     = LoopGoesOn [ErrLog ''commit state'', CommitBlock, ProcessFork,
                   BroadcastBlockHeader, BandwidthUpdate]"
  by (simp add: packAndCommit_def)

text \<open>
  Claim C8, as the code has it.  After a successful \<open>flow.Pack\<close>, the process stops (by
  panic) when \<open>n.commitBlock\<close> returns an error; an error of \<open>stage.Commit\<close> is logged
  and does not decide between stopping and going on.
\<close>

theorem packAndCommit_panics_on_commitBlock:
  "packAndCommit None stageCommitErr (Inl e :: 'e + 'id \<times> 'id)
     = Panics (case stageCommitErr of Some x \<Rightarrow> [ErrLog ''commit state''] | None \<Rightarrow> [])
   \<and> packAndCommit None stageCommitErr (Inr (prevTrunk, curTrunk) :: 'e + 'id \<times> 'id)
     = LoopGoesOn ((case stageCommitErr of Some x \<Rightarrow> [ErrLog ''commit state''] | None \<Rightarrow> [])
          @ [CommitBlock, ProcessFork]
          @ (if prevTrunk \<noteq> curTrunk then [BroadcastBlockHeader] else [])
          @ [BandwidthUpdate])"
  by (simp add: packAndCommit_def)

section \<open>Results about reading summaries\<close>

text \<open>A lookup leaves the store alone, and filling the cache does not change later lookups.\<close>

lemma GetBlockSummary_data: "data (snd (GetBlockSummary r bid)) = data r"
  by (simp add: GetBlockSummary_def split: option.splits sum.splits)

lemma GetBlockSummary_again:
  "fst (GetBlockSummary (snd (GetBlockSummary r b1)) b2) = fst (GetBlockSummary r b2)"
  by (auto simp: GetBlockSummary_def loadBlockSummary_def split: option.splits sum.splits)

lemmas sample_defs = sample_repo_def sample_store_def sample_summary_def
  GetBlockSummary_def loadBlockSummary_def

section \<open>Results about conflicting blocks\<close>

lemma IfConflict_found:
  assumes "fst (GetBlockSummary r b1) = Inr s1" and "fst (GetBlockSummary r b2) = Inr s2"
  shows "fst (IfConflict hb r b1 b2) =
     (if b1 = b2 then (False, None)
      else if Number b1 = Number b2 then (True, None)
      else (case hb (snd (GetBlockSummary (snd (GetBlockSummary r b1)) b2))
                    (if Number b1 > Number b2 then b1 else b2)
                    (if Number b1 > Number b2 then b2 else b1) of
              Inl err \<Rightarrow> (True, Some err)
            | Inr ok \<Rightarrow> (\<not> ok, None)))"
proof -
  obtain r1 where g1: "GetBlockSummary r b1 = (Inr s1, r1)"
    using assms(1) by (cases "GetBlockSummary r b1") simp
  have "fst (GetBlockSummary r1 b2) = Inr s2"
    using GetBlockSummary_again [of r b1 b2] g1 assms(2) by simp
  then obtain r2 where g2: "GetBlockSummary r1 b2 = (Inr s2, r2)"
    by (cases "GetBlockSummary r1 b2") simp
  show ?thesis
    by (simp add: IfConflict_def g1 g2 split: sum.splits)
qed

lemma HasBlock_data: "data r = data r' \<Longrightarrow> HasBlock r h b = HasBlock r' h b"
  by (simp add: HasBlock_def)

lemma walk_up_number:
  "wf_numbers s \<Longrightarrow> walk_up s k b = Some a \<Longrightarrow> unat (Number b) = unat (Number a) + k"
proof (induction k arbitrary: b)
  case 0
  then show ?case by (simp split: if_splits)
next
  case (Suc k)
  from Suc.prems(2) obtain sm where sm: "dSummaries s b = Some sm"
    and w: "walk_up s k (hParentID (sHeader sm)) = Some a"
    by (auto split: option.splits)
  have "dSummaries s (hParentID (sHeader sm)) \<noteq> None"
    using w by (cases k) (auto split: if_splits option.splits)
  with Suc.prems(1) sm have "unat (Number b) = Suc (unat (Number (hParentID (sHeader sm))))"
    unfolding wf_numbers_def by blast
  with Suc.IH [OF Suc.prems(1) w] show ?case by simp
qed

lemma HasBlock_ancestor:
  assumes "wf_numbers (data r)" and "walk_up (data r) k b = Some a"
  shows "HasBlock r b a = Inr True"
proof -
  have n: "unat (Number b) = unat (Number a) + k" by (rule walk_up_number [OF assms])
  then have "\<not> Number b < Number a" by (simp add: word_less_nat_alt)
  moreover have "unat (Number b) - unat (Number a) = k" using n by simp
  ultimately show ?thesis using assms(2) by (simp add: HasBlock_def GetBlockID_def)
qed

lemma HasBlock_true_walk:
  assumes "HasBlock r b a = Inr True"
  shows "\<exists>k. walk_up (data r) k b = Some a"
  using assms
  by (auto simp: HasBlock_def GetBlockID_def IsNotFound_def split: if_splits option.splits sum.splits)

lemma HasBlock_total: "\<exists>ok. HasBlock r b a = Inr ok"
  by (auto simp: HasBlock_def GetBlockID_def IsNotFound_def split: if_splits option.splits sum.splits)

lemma present_found: "present r b \<Longrightarrow> \<exists>sm. fst (GetBlockSummary r b) = Inr sm"
  by (auto simp: present_def split: sum.splits)

lemma IfConflict_HasBlock:
  assumes "present r b1" and "present r b2" and "b1 \<noteq> b2" and "Number b1 \<noteq> Number b2"
  shows "fst (IfConflict HasBlock r b1 b2) =
     (case HasBlock r (if Number b1 > Number b2 then b1 else b2)
                      (if Number b1 > Number b2 then b2 else b1) of
        Inl err \<Rightarrow> (True, Some err) | Inr ok \<Rightarrow> (\<not> ok, None))"
proof -
  obtain s1 s2 where f: "fst (GetBlockSummary r b1) = Inr s1" "fst (GetBlockSummary r b2) = Inr s2"
    using present_found assms(1,2) by blast
  have d: "data (snd (GetBlockSummary (snd (GetBlockSummary r b1)) b2)) = data r"
    by (simp add: GetBlockSummary_data)
  show ?thesis
    using assms(3,4) HasBlock_data [OF d]
    by (simp add: IfConflict_found [OF f])
qed

text \<open>
  Claim C5.  For block ids \<open>b1\<close>, \<open>b2\<close> both present: \<open>IfConflict\<close> returns \<open>false\<close> when
  they are equal and when one is an ancestor of the other (reached from it by following
  parent ids, in a store whose block numbers are well formed); it returns \<open>true\<close> when
  neither is reached from the other, and in particular when they are distinct and have
  the same number.  The error is \<open>nil\<close> in each case.
\<close>

theorem IfConflict_branches:
  assumes "present r b1" and "present r b2"
  shows "(b1 = b2 \<longrightarrow> fst (IfConflict HasBlock r b1 b2) = (False, None))
       \<and> (wf_numbers (data r)
            \<and> (walk_up (data r) k b2 = Some b1 \<or> walk_up (data r) k b1 = Some b2)
          \<longrightarrow> fst (IfConflict HasBlock r b1 b2) = (False, None))
       \<and> (b1 \<noteq> b2 \<and> (\<forall>j. walk_up (data r) j b2 \<noteq> Some b1)
                   \<and> (\<forall>j. walk_up (data r) j b1 \<noteq> Some b2)
          \<longrightarrow> fst (IfConflict HasBlock r b1 b2) = (True, None))
       \<and> (b1 \<noteq> b2 \<and> Number b1 = Number b2
          \<longrightarrow> fst (IfConflict HasBlock r b1 b2) = (True, None))"
proof -
  obtain s1 s2 where f: "fst (GetBlockSummary r b1) = Inr s1" "fst (GetBlockSummary r b2) = Inr s2"
    using present_found assms by blast
  note found = IfConflict_found [OF f, of HasBlock]
  have same: "fst (IfConflict HasBlock r b1 b2) = (False, None)" if "b1 = b2"
    using that found by simp
  have level: "fst (IfConflict HasBlock r b1 b2) = (True, None)"
    if "b1 \<noteq> b2 \<and> Number b1 = Number b2"
    using that found by simp
  have anc: "fst (IfConflict HasBlock r b1 b2) = (False, None)"
    if a: "wf_numbers (data r)
        \<and> (walk_up (data r) k b2 = Some b1 \<or> walk_up (data r) k b1 = Some b2)"
  proof -
    from a have wf: "wf_numbers (data r)" by simp
    show ?thesis
    proof (cases "b1 = b2")
      case True
      then show ?thesis using found by simp
    next
      case False
      from a consider (up) "walk_up (data r) k b2 = Some b1" | (down) "walk_up (data r) k b1 = Some b2"
        by blast
      then show ?thesis
      proof cases
        case up
        have n: "unat (Number b2) = unat (Number b1) + k" by (rule walk_up_number [OF wf up])
        have "k \<noteq> 0" using up False by (cases k) (auto split: if_splits)
        with n have lt: "Number b1 < Number b2" by (simp add: word_less_nat_alt)
        then have ne: "Number b1 \<noteq> Number b2" and ngt: "\<not> Number b1 > Number b2" by auto
        show ?thesis
          using HasBlock_ancestor [OF wf up] ngt
          by (simp add: IfConflict_HasBlock [OF assms False ne])
      next
        case down
        have n: "unat (Number b1) = unat (Number b2) + k" by (rule walk_up_number [OF wf down])
        have "k \<noteq> 0" using down False by (cases k) (auto split: if_splits)
        with n have lt: "Number b2 < Number b1" by (simp add: word_less_nat_alt)
        then have ne: "Number b1 \<noteq> Number b2" by auto
        show ?thesis
          using HasBlock_ancestor [OF wf down] lt
          by (simp add: IfConflict_HasBlock [OF assms False ne])
      qed
    qed
  qed
  have div: "fst (IfConflict HasBlock r b1 b2) = (True, None)"
    if a: "b1 \<noteq> b2 \<and> (\<forall>j. walk_up (data r) j b2 \<noteq> Some b1)
                   \<and> (\<forall>j. walk_up (data r) j b1 \<noteq> Some b2)"
  proof -
    show ?thesis
    proof (cases "Number b1 = Number b2")
      case True
      with a show ?thesis using found by simp
    next
      case False
      let ?high = "if Number b1 > Number b2 then b1 else b2"
      let ?low = "if Number b1 > Number b2 then b2 else b1"
      obtain ok where ok: "HasBlock r ?high ?low = Inr ok" using HasBlock_total by blast
      have "\<not> ok"
      proof
        assume ok
        with ok have "\<exists>j. walk_up (data r) j ?high = Some ?low"
          using HasBlock_true_walk by simp
        with a show False by (auto split: if_splits)
      qed
      with ok a False show ?thesis
        by (simp add: IfConflict_HasBlock [OF assms _ False])
    qed
  qed
  from same anc div level show ?thesis by blast
qed

lemma sample_present:
  "present sample_repo (0, 100)" "present sample_repo (1, 11)"
  "present sample_repo (2, 12)" "present sample_repo (1, 21)"
  by (simp_all add: present_def sample_defs)

lemma sample_wf: "wf_numbers (data sample_repo)"
  by (auto simp: wf_numbers_def sample_defs Number_def split: if_splits)

lemma sample_walk: "walk_up (data sample_repo) 2 (2, 12) = Some (0, 100)"
  by (simp add: sample_defs numeral_2_eq_2)

lemma walk_up_missing: "dSummaries s b = None \<Longrightarrow> walk_up s j b = None"
  by (cases j) simp_all

lemma sample_genesis_parent: "walk_up (data sample_repo) j (0xFFFFFFFF, 0) = None"
  by (rule walk_up_missing) (simp add: sample_defs)

lemma sample_no_walk:
  "walk_up (data sample_repo) j (2, 12) \<noteq> Some (1, 21)"
  "walk_up (data sample_repo) j (1, 21) \<noteq> Some (2, 12)"
proof -
  show "walk_up (data sample_repo) j (2, 12) \<noteq> Some (1, 21)"
  proof (cases j)
    case 0 then show ?thesis by (simp add: sample_defs)
  next
    case (Suc j1) then show ?thesis
    proof (cases j1)
      case 0 with Suc show ?thesis by (simp add: sample_defs)
    next
      case (Suc j2) with \<open>j = Suc j1\<close> show ?thesis
        using sample_genesis_parent by (cases j2) (simp_all add: sample_defs)
    qed
  qed
  show "walk_up (data sample_repo) j (1, 21) \<noteq> Some (2, 12)"
  proof (cases j)
    case 0 then show ?thesis by (simp add: sample_defs)
  next
    case (Suc j1) then show ?thesis
      using sample_genesis_parent by (cases j1) (simp_all add: sample_defs)
  qed
qed

theorem IfConflict_branches_witness:
  "fst (IfConflict HasBlock sample_repo (1, 11) (1, 11)) = (False, None)
   \<and> fst (IfConflict HasBlock sample_repo (0, 100) (2, 12)) = (False, None)
   \<and> fst (IfConflict HasBlock sample_repo (2, 12) (1, 21)) = (True, None)
   \<and> fst (IfConflict HasBlock sample_repo (1, 11) (1, 21)) = (True, None)"
proof -
  have 1: "fst (IfConflict HasBlock sample_repo (1, 11) (1, 11)) = (False, None)"
    using IfConflict_branches [OF sample_present(2) sample_present(2)] by simp
  have 2: "fst (IfConflict HasBlock sample_repo (0, 100) (2, 12)) = (False, None)"
    using IfConflict_branches [OF sample_present(1) sample_present(3), of 2] sample_wf sample_walk
    by simp
  have 3: "fst (IfConflict HasBlock sample_repo (2, 12) (1, 21)) = (True, None)"
    using IfConflict_branches [OF sample_present(3) sample_present(4)] sample_no_walk
    by simp
  have 4: "fst (IfConflict HasBlock sample_repo (1, 11) (1, 21)) = (True, None)"
    using IfConflict_branches [OF sample_present(2) sample_present(4)]
    by (simp add: Number_def)
  from 1 2 3 4 show ?thesis by simp
qed

section \<open>Results about lookups that fail in \<open>IfConflict\<close>\<close>

text \<open>
  An error of either lookup ends \<open>IfConflict\<close> with \<open>false\<close>: with a \<open>nil\<close> error when it is
  not-found, with the error itself otherwise.
\<close>

lemma IfConflict_first_error:
  assumes "fst (GetBlockSummary r b1) = Inl err"
  shows "fst (IfConflict hasBlock r b1 b2)
           = (False, if IsNotFound err then None else Some err)"
proof -
  from assms obtain r1 where "GetBlockSummary r b1 = (Inl err, r1)"
    by (cases "GetBlockSummary r b1") simp
  then show ?thesis by (simp add: IfConflict_def)
qed

lemma IfConflict_second_error:
  assumes "fst (GetBlockSummary r b1) = Inr s1" and "fst (GetBlockSummary r b2) = Inl err"
  shows "fst (IfConflict hasBlock r b1 b2)
           = (False, if IsNotFound err then None else Some err)"
proof -
  obtain r1 where g1: "GetBlockSummary r b1 = (Inr s1, r1)"
    using assms(1) by (cases "GetBlockSummary r b1") simp
  have "fst (GetBlockSummary r1 b2) = Inl err"
    using GetBlockSummary_again [of r b1 b2] g1 assms(2) by simp
  then obtain r2 where "GetBlockSummary r1 b2 = (Inl err, r2)"
    by (cases "GetBlockSummary r1 b2") simp
  with g1 show ?thesis by (simp add: IfConflict_def)
qed

text \<open>
  Claim C10, as the code has it.  When \<open>GetBlockSummary\<close> reports not-found for \<open>b1\<close>, or
  finds \<open>b1\<close> and reports not-found for \<open>b2\<close>, \<open>IfConflict\<close> returns \<open>false\<close> with a \<open>nil\<close>
  error: the not-found condition does not reach the caller.  The summary of \<open>b1\<close> is looked
  up first: when that lookup fails with another error, \<open>IfConflict\<close> returns \<open>false\<close> with
  that error, whether or not the summary of \<open>b2\<close> would be found; and so it does when
  \<open>b1\<close> is found and the lookup of \<open>b2\<close> fails with another error.
\<close>

theorem IfConflict_lookup_errors:
  "(fst (GetBlockSummary r b1) = Inl NotFound
      \<or> (fst (GetBlockSummary r b1) = Inr s1 \<and> fst (GetBlockSummary r b2) = Inl NotFound)
     \<longrightarrow> fst (IfConflict hasBlock r b1 b2) = (False, None))
   \<and> (fst (GetBlockSummary r b1) = Inl err \<and> err \<noteq> NotFound
     \<longrightarrow> fst (IfConflict hasBlock r b1 b2) = (False, Some err))
   \<and> (fst (GetBlockSummary r b1) = Inr s1 \<and> fst (GetBlockSummary r b2) = Inl err
        \<and> err \<noteq> NotFound
     \<longrightarrow> fst (IfConflict hasBlock r b1 b2) = (False, Some err))"
  using IfConflict_first_error [of r b1 NotFound hasBlock b2]
    IfConflict_first_error [of r b1 err hasBlock b2]
    IfConflict_second_error [of r b1 s1 b2 NotFound hasBlock]
    IfConflict_second_error [of r b1 s1 b2 err hasBlock]
  by (auto simp: IsNotFound_def)

text \<open>
  Claim C10 as stated fails when the summary of \<open>b2\<close> is not found and the lookup of \<open>b1\<close>
  fails with a storage error: the error is returned.
\<close>

theorem IfConflict_fault_counterexample:
  "fst (GetBlockSummary load_fault_repo (5, 5)) = Inl NotFound
   \<and> fst (IfConflict HasBlock load_fault_repo (1, 11) (5, 5)) = (False, Some StorageFault)"
  by (simp add: load_fault_repo_def sample_defs IfConflict_def IsNotFound_def)

theorem IfConflict_lookup_errors_witness:
  "fst (GetBlockSummary sample_repo (5, 5)) = Inl NotFound
   \<and> fst (IfConflict HasBlock sample_repo (5, 5) (1, 11)) = (False, None)
   \<and> fst (GetBlockSummary sample_repo (1, 11)) = Inr (sample_summary (1, 11) (0, 100))
   \<and> fst (IfConflict HasBlock sample_repo (1, 11) (5, 5)) = (False, None)
   \<and> fst (GetBlockSummary load_fault_repo (1, 11)) = Inl StorageFault
   \<and> fst (IfConflict HasBlock load_fault_repo (1, 11) (5, 5)) = (False, Some StorageFault)
   \<and> fst (GetBlockSummary load_fault_repo (2, 12)) = Inr (sample_summary (2, 12) (1, 11))
   \<and> fst (IfConflict HasBlock load_fault_repo (2, 12) (1, 11)) = (False, Some StorageFault)"
proof -
  have a: "fst (GetBlockSummary sample_repo (5, 5)) = Inl NotFound"
    by (simp add: sample_defs)
  have b: "fst (GetBlockSummary sample_repo (1, 11)) = Inr (sample_summary (1, 11) (0, 100))"
    by (simp add: sample_defs)
  have c: "fst (GetBlockSummary load_fault_repo (1, 11)) = Inl StorageFault"
    by (simp add: load_fault_repo_def sample_defs)
  have d: "fst (GetBlockSummary load_fault_repo (2, 12)) = Inr (sample_summary (2, 12) (1, 11))"
    by (simp add: load_fault_repo_def sample_defs)
  have 1: "fst (IfConflict HasBlock sample_repo (5, 5) (1, 11)) = (False, None)"
    using IfConflict_lookup_errors [of sample_repo "(5, 5)" _ "(1, 11)" HasBlock] a by blast
  have 2: "fst (IfConflict HasBlock sample_repo (1, 11) (5, 5)) = (False, None)"
    using IfConflict_lookup_errors
      [of sample_repo "(1, 11)" "sample_summary (1, 11) (0, 100)" "(5, 5)" HasBlock] a b
    by blast
  have 3: "fst (IfConflict HasBlock load_fault_repo (1, 11) (5, 5)) = (False, Some StorageFault)"
    using IfConflict_lookup_errors
      [of load_fault_repo "(1, 11)" _ "(5, 5)" HasBlock StorageFault] c
    by blast
  have 4: "fst (IfConflict HasBlock load_fault_repo (2, 12) (1, 11)) = (False, Some StorageFault)"
    using IfConflict_lookup_errors
      [of load_fault_repo "(2, 12)" "sample_summary (2, 12) (1, 11)" "(1, 11)" HasBlock StorageFault]
      c d
    by blast
  from a b c d 1 2 3 4 show ?thesis by simp
qed

section \<open>Results about adding a block\<close>
















section \<open>Results about epoch numbers\<close>

text \<open>Conversions between \<open>uint32\<close> and \<open>uint64\<close> that lose nothing.\<close>

lemma ucast_32_of_64:
  "unat (w :: uint64) < 2 ^ 32 \<Longrightarrow> unat (ucast w :: uint32) = unat w"
  by (simp add: unsigned_ucast_eq take_bit_nat_eq_self)

lemma ucast_64_of_32: "unat (ucast (w :: uint32) :: uint64) = unat w"
proof -
  have "unat w < 2 ^ 32" using unsigned_less [of w, where ?'a = nat] by simp
  then have "unat w < 2 ^ 64" by (rule less_trans) simp
  then show ?thesis by (simp add: unsigned_ucast_eq take_bit_nat_eq_self)
qed

text \<open>
  The round and the epoch as numbers, for a timestamp not before the genesis timestamp
  whose round number fits 32 bits.
\<close>

lemma RoundNumber_unat:
  assumes "BI \<noteq> 0" and "\<not> t < g" and "(unat t - unat g) div unat BI < 2 ^ 32"
  shows "\<exists>round. RoundNumber g BI t = Returned (Inr round)
            \<and> unat round = (unat t - unat g) div unat BI"
proof -
  from assms(2) have "g \<le> t" by simp
  then have "unat (t - g) = unat t - unat g" by (simp add: unat_sub)
  then have "unat ((t - g) div BI) = (unat t - unat g) div unat BI" by (simp add: unat_div)
  with assms show ?thesis by (simp add: RoundNumber_def ucast_32_of_64)
qed

lemma EpochNumber_unat:
  assumes "BI \<noteq> 0" and "EI \<noteq> 0" and "\<not> t < g"
      and "(unat t - unat g) div unat BI < 2 ^ 32"
  shows "\<exists>e. EpochNumber g BI EI t = Returned (Inr e)
           \<and> unat e = (if (unat t - unat g) div unat BI = 0 then 0
                       else ((unat t - unat g) div unat BI - 1) div unat EI + 1)"
proof -
  define R where "R = (unat t - unat g) div unat BI"
  obtain round where r: "RoundNumber g BI t = Returned (Inr round)" and u: "unat round = R"
    using RoundNumber_unat [OF assms(1,3,4)] R_def by blast
  show ?thesis
  proof (cases "R = 0")
    case True
    with u have "round = 0" by (simp add: unat_eq_0)
    with True r show ?thesis by (simp add: EpochNumber_def R_def [symmetric])
  next
    case False
    with u have nz: "round \<noteq> 0" by auto
    then have "1 \<le> round" by (simp add: word_le_nat_alt unat_gt_0 Suc_leI)
    then have m: "unat (round - 1) = R - 1" using u by (simp add: unat_sub)
    let ?q = "(ucast (round - 1) :: uint64) div EI"
    have q: "unat ?q = (R - 1) div unat EI" by (simp add: unat_div ucast_64_of_32 m)
    have "R < 2 ^ 32" using assms(4) R_def by simp
    moreover have "(R - 1) div unat EI \<le> R - 1" by (rule div_le_dividend)
    ultimately have lt: "(R - 1) div unat EI + 1 < 2 ^ 32" using False by linarith
    then have "(R - 1) div unat EI + 1 < 2 ^ 64" by (rule less_trans) simp
    then have "unat (?q + 1) = (R - 1) div unat EI + 1"
      using q by (simp add: unat_word_ariths)
    with lt have "unat (ucast (?q + 1) :: uint32) = (R - 1) div unat EI + 1"
      by (simp add: ucast_32_of_64)
    with False nz r assms(2) show ?thesis
      by (simp add: EpochNumber_def R_def [symmetric])
  qed
qed

lemma EpochNumber_value:
  assumes "BI \<noteq> 0" and "EI \<noteq> 0" and "unat g \<le> unat t"
      and "(unat t - unat g) div unat BI = R" and "R < 2 ^ 32"
  shows "EpochNumber g BI EI t
           = Returned (Inr (of_nat (if R = 0 then 0 else (R - 1) div unat EI + 1)))"
proof -
  from assms(3) have ng: "\<not> t < g" by (simp add: word_less_nat_alt)
  from EpochNumber_unat [OF assms(1,2) ng] assms(4,5)
  obtain e where e: "EpochNumber g BI EI t = Returned (Inr e)"
    and u: "unat e = (if R = 0 then 0 else (R - 1) div unat EI + 1)" by auto
  have "e = of_nat (unat e)" by simp
  with e u show ?thesis by simp
qed

text \<open>
  The model returns what each of the six rows of the test expects, for a positive genesis
  timestamp, a block interval above one second and timestamps that fit 64 bits.
\<close>

lemma EpochNumber_meets_test:
  assumes g: "g \<noteq> 0" and bi: "1 < unat BI" and ei: "EI \<noteq> 0"
      and fit: "unat g + unat BI * (unat EI + 1) < 2 ^ 64"
      and fit32: "unat EI + 1 < 2 ^ 32"
  shows "\<forall>(t, expected) \<in> set (TestEpochNumber_table g BI EI).
           EpochNumber g BI EI t = Returned expected"
proof -
  have bnz: "BI \<noteq> 0" using bi by auto
  have e0: "0 < unat EI" using ei by (simp add: unat_gt_0)
  have b1: "unat BI * 1 \<le> unat BI * unat EI" using e0 by (intro mult_le_mono2) simp
  have uE1: "unat (EI + 1) = unat EI + 1"
    using fit32 by (simp add: unat_word_ariths)
  have m1: "unat BI * unat EI < 2 ^ 64" using fit by simp
  have uM: "unat (BI * EI) = unat BI * unat EI"
    using m1 by (simp add: unat_word_ariths)
  have m2: "unat BI * (unat EI + 1) < 2 ^ 64" using fit by simp
  have "unat (BI * (EI + 1)) = unat BI * unat (EI + 1) mod 2 ^ LENGTH(64)"
    by (rule unat_word_ariths(2))
  then have uM2: "unat (BI * (EI + 1)) = unat BI * (unat EI + 1)"
    using m2 by (simp add: uE1)
  have u1: "unat (g + 1) = unat g + 1"
    using fit bi by (simp add: unat_word_ariths)
  have uB: "unat (g + BI) = unat g + unat BI"
    using fit b1 by (simp add: unat_word_ariths)
  have u4: "unat (g + BI * EI) = unat g + unat BI * unat EI"
    using fit by (simp add: unat_word_ariths uM)
  have u5: "unat (g + BI * EI + 1) = unat g + unat BI * unat EI + 1"
    using fit bi by (simp add: unat_word_ariths u4)
  have "unat (g + BI * (EI + 1)) = (unat g + unat (BI * (EI + 1))) mod 2 ^ LENGTH(64)"
    by (rule unat_word_ariths(1))
  then have u6: "unat (g + BI * (EI + 1)) = unat g + unat BI * (unat EI + 1)"
    using fit by (simp add: uM2)
  have d5: "(unat BI * unat EI + 1) div unat BI = unat EI"
  proof (rule div_nat_eqI)
    show "unat BI * unat EI \<le> unat BI * unat EI + 1" by simp
    show "unat BI * unat EI + 1 < unat BI * Suc (unat EI)" using bi by simp
  qed
  have d6: "(unat BI * (unat EI + 1)) div unat BI = unat EI + 1" using bi by simp
  have r1: "EpochNumber g BI EI (g - 1) = Returned (Inl errTimestamp)"
  proof -
    have "g - 1 < g" using g by (simp add: word_less_nat_alt unat_minus_one unat_gt_0)
    then show ?thesis by (simp add: EpochNumber_def RoundNumber_def)
  qed
  have r2: "EpochNumber g BI EI (g + 1) = Returned (Inr 0)"
    using EpochNumber_value [OF bnz ei, of g "g + 1" 0] bi by (simp add: u1)
  have r3: "EpochNumber g BI EI (g + BI) = Returned (Inr 1)"
    using EpochNumber_value [OF bnz ei, of g "g + BI" 1] bi by (simp add: uB)
  have r4: "EpochNumber g BI EI (g + BI * EI) = Returned (Inr 1)"
    using EpochNumber_value [OF bnz ei, of g "g + BI * EI" "unat EI"] bi e0 fit32
    by (simp add: u4)
  have r5: "EpochNumber g BI EI (g + BI * EI + 1) = Returned (Inr 1)"
    using EpochNumber_value [OF bnz ei, of g "g + BI * EI + 1" "unat EI"] e0 fit32 d5
    by (simp add: u5)
  have r6: "EpochNumber g BI EI (g + BI * (EI + 1)) = Returned (Inr 2)"
    using EpochNumber_value [OF bnz ei, of g "g + BI * (EI + 1)" "unat EI + 1"] e0 fit32 d6
    by (simp add: u6)
  from r1 r2 r3 r4 r5 r6 show ?thesis by (simp add: TestEpochNumber_table_def)
qed




end
